theory Spec2Isabelle
  imports Main "HOL-Library.AList"
begin

section \<open>The client ranking of \<open>src/App.js\<close>\<close>

text \<open>
  The ranking is computed by the \<open>rankedClients\<close> memo of \<open>App\<close> (lines 103 to 111)
  and rendered by \<open>RankingPanel\<close> (line 147):
  \<^verbatim>\<open>
  const clientTotals = clients.reduce((acc, sale) => {
      const identifier =
        `${sale.firstName}|${sale.lastName}|${sale.instagram || ''}`.toLowerCase();
      if (!acc[identifier]) acc[identifier] = { firstName: sale.firstName,
            lastName: sale.lastName, instagram: sale.instagram,
            totalValor: 0, id: identifier };
      acc[identifier].totalValor += sale.valor || 0;
      return acc;
  }, {});
  return Object.values(clientTotals)
           .sort((a, b) => b.totalValor - a.totalValor).slice(0, 10);
  \<close>
\<close>

subsection \<open>Text fields\<close>

text \<open>
  A text field of a Firestore document (\<open>firstName\<close>, \<open>lastName\<close>, \<open>instagram\<close>) is
  absent (\<open>undefined\<close> when read), \<open>null\<close>, or a string.
\<close>

datatype jstext = TUndefined | TNull | TStr string

subsection \<open>Numbers\<close>

text \<open>
  A number of the program is an IEEE 754 double: \<open>NaN\<close>, an infinity, or a finite
  value. Every finite double is a whole multiple of \<open>2^(-1074)\<close>, the smallest positive
  double, so \<open>Fin k\<close> stands for the value \<open>k\<close> times \<open>2^(-1074)\<close>. The negative zero
  is not modelled: \<open>sale.valor || 0\<close> replaces it by zero, and a sum is the negative
  zero only when both its operands are.
\<close>

datatype double = DNaN | PInf | NInf | Fin int

text \<open>
  Rounding to the nearest double, ties to the even one. A double has 53 significant
  bits: \<open>excess n\<close> is the number of bits that \<open>n\<close> has beyond 53, the quantum is two
  to that power, and the value is rounded to the nearest multiple of the quantum. A
  result of magnitude \<open>2^1024\<close> (\<open>2^2098\<close> units) or more overflows to an infinity.
\<close>

function excess :: "nat \<Rightarrow> nat" where
  "excess n = (if n < 2 ^ 53 then 0 else Suc (excess (n div 2)))"
  by pat_completeness auto
termination
  by (relation "measure (\<lambda>n. n)") auto

definition round_half_even :: "int \<Rightarrow> int \<Rightarrow> int" where
  "round_half_even k q =
     (let d = k div q; r = k mod q
      in if 2 * r < q then d
         else if q < 2 * r then d + 1
         else if even d then d else d + 1)"

definition round53 :: "int \<Rightarrow> int" where
  "round53 k = (let q = 2 ^ excess (nat \<bar>k\<bar>) in round_half_even k q * q)"

definition round_double :: "int \<Rightarrow> double" where
  "round_double k =
     (let r = round53 k
      in if 2 ^ 2098 \<le> r then PInf else if r \<le> - (2 ^ 2098) then NInf else Fin r)"

text \<open>The operators \<open>+\<close> and \<open>-\<close> on numbers.\<close>

fun dadd :: "double \<Rightarrow> double \<Rightarrow> double" where
  "dadd DNaN y = DNaN"
| "dadd x DNaN = DNaN"
| "dadd PInf NInf = DNaN"
| "dadd NInf PInf = DNaN"
| "dadd PInf y = PInf"
| "dadd x PInf = PInf"
| "dadd NInf y = NInf"
| "dadd x NInf = NInf"
| "dadd (Fin a) (Fin b) = round_double (a + b)"

fun dneg :: "double \<Rightarrow> double" where
  "dneg DNaN = DNaN"
| "dneg PInf = NInf"
| "dneg NInf = PInf"
| "dneg (Fin a) = Fin (- a)"

definition dsub :: "double \<Rightarrow> double \<Rightarrow> double" where
  "dsub x y = dadd x (dneg y)"

text \<open>
  \<open>positive v\<close> is the test \<open>v > 0\<close> and \<open>dge x y\<close> the test \<open>x >= y\<close>; both are
  false when an operand is \<open>NaN\<close>.
\<close>

fun positive :: "double \<Rightarrow> bool" where
  "positive (Fin a) = (0 < a)"
| "positive PInf = True"
| "positive NInf = False"
| "positive DNaN = False"

fun dge :: "double \<Rightarrow> double \<Rightarrow> bool" where
  "dge DNaN y = False"
| "dge x DNaN = False"
| "dge PInf y = True"
| "dge x NInf = True"
| "dge NInf y = False"
| "dge x PInf = False"
| "dge (Fin a) (Fin b) = (b \<le> a)"

text \<open>
  The whole number \<open>n\<close> in units of \<open>2^(-1074)\<close>; it is a double when its magnitude is
  at most \<open>2^53\<close>.
\<close>

definition whole :: "int \<Rightarrow> int" where
  "whole n = n * 2 ^ 1074"

text \<open>
  The field \<open>valor\<close> of a document is absent, \<open>null\<close>, \<open>NaN\<close> (what \<open>parseFloat\<close>
  stores for an unreadable number, lines 150 and 156) or a finite number, in the same
  units. The infinities are left out of the input: the number field of the form yields
  none. A \<open>valor\<close> of another type, such as a string, which line 107 would append
  instead of adding, is outside the model as well: the application writes the field
  through \<open>parseFloat\<close> only.
\<close>

datatype jsnum = NUndefined | NNull | NaN | Num int

text \<open>
  A sale as the reducer reads it. The fields \<open>id\<close> and \<open>createdAt\<close> of a document
  (line 79) are never read by the ranking and are left out. The three name fields are
  shared with the aggregated entry below, which the source builds from them.
\<close>

record client_name =
  firstName :: jstext
  lastName :: jstext
  instagram :: jstext

record sale = client_name +
  valor :: jsnum

text \<open>
  The object stored under \<open>acc[identifier]\<close>; its field \<open>id\<close> is called
  \<open>entry_id\<close>, since \<open>id\<close> is the identity function of HOL.
\<close>

record entry = client_name +
  totalValor :: double
  entry_id :: string

subsection \<open>The identifier\<close>

text \<open>
  \<open>ToString\<close> is the conversion a template literal applies to \<open>${...}\<close>.
\<close>

fun ToString :: "jstext \<Rightarrow> string" where
  "ToString TUndefined = ''undefined''"
| "ToString TNull = ''null''"
| "ToString (TStr s) = s"

text \<open>
  \<open>x || ''\<close>: the empty string replaces a falsy \<open>x\<close>, which for a text field is
  \<open>undefined\<close>, \<open>null\<close> or the empty string itself.
\<close>

fun or_empty :: "jstext \<Rightarrow> jstext" where
  "or_empty TUndefined = TStr []"
| "or_empty TNull = TStr []"
| "or_empty (TStr s) = TStr s"

text \<open>
  A string of the program is a sequence of UTF-16 code units. The strings of the model
  are those whose code units are below 256, the characters of Latin-1, and a \<open>char\<close>
  is such a code unit. On them \<open>String.prototype.toLowerCase\<close> works unit by unit: the
  capital letters are the units 65 to 90 (A to Z), 192 to 214 and 216 to 222 (the
  accented capitals), and each becomes the unit 32 above it; every other unit is kept.
  Strings with code units from 256 on are outside the model.
\<close>

definition is_capital :: "char \<Rightarrow> bool" where
  "is_capital c =
     (let n = (of_char c :: nat)
      in (65 \<le> n \<and> n \<le> 90) \<or> (192 \<le> n \<and> n \<le> 214) \<or> (216 \<le> n \<and> n \<le> 222))"

definition toLowerChar :: "char \<Rightarrow> char" where
  "toLowerChar c = (if is_capital c then char_of (of_char c + 32 :: nat) else c)"

definition toLowerCase :: "string \<Rightarrow> string" where
  "toLowerCase s = map toLowerChar s"

definition "identifier" :: "'a sale_scheme \<Rightarrow> string" where
  "identifier sale =
     toLowerCase (ToString (firstName sale) @ ''|'' @ ToString (lastName sale) @ ''|''
                  @ ToString (or_empty (instagram sale)))"

subsection \<open>The reducer\<close>

text \<open>
  \<open>sale.valor || 0\<close>: zero replaces a falsy \<open>valor\<close>, which is \<open>undefined\<close>,
  \<open>null\<close>, \<open>NaN\<close> or the number zero itself.
\<close>

fun or_zero :: "jsnum \<Rightarrow> double" where
  "or_zero (Num v) = Fin v"
| "or_zero NUndefined = Fin 0"
| "or_zero NNull = Fin 0"
| "or_zero NaN = Fin 0"

text \<open>
  The accumulator \<open>acc\<close> starts as the empty object \<open>{}\<close>. Every key it receives
  contains the character \<open>|\<close> (lemma \<open>pipe_in_identifier\<close> below), so no key is an
  integer index and none is a property inherited from \<open>Object.prototype\<close>: the own
  properties are kept in insertion order, and \<open>acc[identifier]\<close> is \<open>undefined\<close>
  exactly when the key was never stored. The object is therefore an association list
  in insertion order: \<open>map_of\<close> reads a key and \<open>AList.update\<close> stores one, in place
  when the key is present and at the end when it is new.
\<close>

type_synonym acc = "(string \<times> entry) list"

definition new_entry :: "'a sale_scheme \<Rightarrow> string \<Rightarrow> entry" where
  "new_entry sale k =
     \<lparr>firstName = firstName sale, lastName = lastName sale, instagram = instagram sale,
      totalValor = Fin 0, entry_id = k\<rparr>"

text \<open>
  The one operation of the reducer that can throw is the property read
  \<open>acc[identifier].totalValor\<close>: it is a \<open>TypeError\<close> when \<open>acc[identifier]\<close> is
  \<open>undefined\<close>. The model keeps that branch. The assignment \<open>+=\<close> mutates the
  object stored under the key, which is the list with the changed object stored at the
  same place.
\<close>

datatype js_error = TypeError

definition reducer :: "acc \<Rightarrow> 'a sale_scheme \<Rightarrow> js_error + acc" where
  "reducer acc sale =
     (let k = identifier sale;
          acc1 = (if map_of acc k = None then AList.update k (new_entry sale k) acc
                  else acc)
      in case map_of acc1 k of
           None \<Rightarrow> Inl TypeError
         | Some e \<Rightarrow>
             Inr (AList.update k (e\<lparr>totalValor := dadd (totalValor e) (or_zero (valor sale))\<rparr>) acc1))"

text \<open>
  \<open>Array.prototype.reduce\<close> with an initial value: the callback runs on the elements
  from left to right, and an exception of the callback ends the call.
\<close>

fun Array_reduce :: "('b \<Rightarrow> 'a \<Rightarrow> js_error + 'b) \<Rightarrow> 'b \<Rightarrow> 'a list \<Rightarrow> js_error + 'b" where
  "Array_reduce f acc [] = Inr acc"
| "Array_reduce f acc (x # xs) =
     (case f acc x of Inl err \<Rightarrow> Inl err | Inr acc' \<Rightarrow> Array_reduce f acc' xs)"

definition clientTotals :: "'a sale_scheme list \<Rightarrow> js_error + acc" where
  "clientTotals clients = Array_reduce reducer [] clients"

definition Object_values :: "acc \<Rightarrow> entry list" where
  "Object_values a = map snd a"

subsection \<open>Sorting and truncation\<close>

text \<open>
  \<open>Array.prototype.sort\<close> with a comparator is a stable sort (ECMAScript 2019): it puts
  \<open>b\<close> before \<open>a\<close> when \<open>cmp a b > 0\<close>, and keeps the order of \<open>a\<close> and \<open>b\<close>
  when the result is negative, zero or \<open>NaN\<close>. For a consistent comparator the result
  of a stable sort is unique, so it is modelled by the stable insertion sort.
\<close>

fun insert_cmp :: "('a \<Rightarrow> 'a \<Rightarrow> double) \<Rightarrow> 'a \<Rightarrow> 'a list \<Rightarrow> 'a list" where
  "insert_cmp cmp x [] = [x]"
| "insert_cmp cmp x (y # ys) =
     (if positive (cmp x y) then y # insert_cmp cmp x ys else x # y # ys)"

definition sort_cmp :: "('a \<Rightarrow> 'a \<Rightarrow> double) \<Rightarrow> 'a list \<Rightarrow> 'a list" where
  "sort_cmp cmp xs = foldr (insert_cmp cmp) xs []"

definition by_total_desc :: "entry \<Rightarrow> entry \<Rightarrow> double" where
  "by_total_desc a b = dsub (totalValor b) (totalValor a)"

definition rankedClients :: "'a sale_scheme list \<Rightarrow> js_error + entry list" where
  "rankedClients clients =
     (case clientTotals clients of
        Inl err \<Rightarrow> Inl err
      | Inr totals \<Rightarrow> Inr (take 10 (sort_cmp by_total_desc (Object_values totals))))"

subsection \<open>The panel\<close>

text \<open>
  \<open>RankingPanel\<close> shows a paragraph when the list is empty and otherwise one item per
  client: the position \<open>index + 1\<close>, the two names, and either the total (the text
  \<open>R$\<close> followed by \<open>totalValor.toFixed(2)\<close>) or the text \<open>Valor Privado\<close>. The
  decimal formatting of \<open>toFixed\<close> is not modelled: \<open>Valor v\<close> stands for the paragraph
  that prints the number \<open>v\<close>. The colour of the position and the Instagram link of
  an item are left out.
\<close>

datatype valor_cell = Valor double | ValorPrivado

record item =
  position :: nat
  shown_name :: "jstext \<times> jstext"
  cell :: valor_cell

datatype panel = RankingEmpty | RankingList "item list"

definition render_item :: "nat \<times> entry \<Rightarrow> item" where
  "render_item p =
     (case p of (index, client) \<Rightarrow>
        \<lparr>position = index + 1,
         shown_name = (firstName client, lastName client),
         cell = (if index < 3 then Valor (totalValor client) else ValorPrivado)\<rparr>)"

definition RankingPanel :: "entry list \<Rightarrow> panel" where
  "RankingPanel clients =
     (if length clients = 0 then RankingEmpty
      else RankingList (map render_item (enumerate 0 clients)))"

subsection \<open>Notions used by the statements\<close>

text \<open>
  The amounts \<open>sale.valor || 0\<close> of the records whose identifier is \<open>k\<close>, in the
  order of the input.
\<close>

definition shared_amounts :: "string \<Rightarrow> 'a sale_scheme list \<Rightarrow> double list" where
  "shared_amounts k clients =
     map (\<lambda>sale. or_zero (valor sale)) (filter (\<lambda>sale. identifier sale = k) clients)"

text \<open>
  The object \<open>acc[identifier]\<close> of a sale in the finished accumulator: the client
  entry the sale was added to.
\<close>

definition entry_for :: "acc \<Rightarrow> 'a sale_scheme \<Rightarrow> entry option" where
  "entry_for totals sale = map_of totals (identifier sale)"

text \<open>
  What one call of the reducer returns when it does not throw: the object under the
  sale's key (a new one when the key is new) with the amount added, stored under that
  key. Lemma \<open>reducer_aggregate\<close> shows that the reducer always returns it.
\<close>

definition aggregate :: "acc \<Rightarrow> 'a sale_scheme \<Rightarrow> acc" where
  "aggregate acc sale =
     (let k = identifier sale;
          e = (case map_of acc k of None \<Rightarrow> new_entry sale k | Some e \<Rightarrow> e)
      in AList.update k (e\<lparr>totalValor := dadd (totalValor e) (or_zero (valor sale))\<rparr>) acc)"

text \<open>
  The validity of a record in the words of the specification (its sections 3, 4.1 and
  7): \<open>firstName\<close> and \<open>lastName\<close> are present and not empty after trimming, and the
  amount is a number. A string is empty after trimming when it has white space only.
\<close>

definition spec_blank :: "jstext \<Rightarrow> bool" where
  "spec_blank t =
     (case t of TStr s \<Rightarrow> list_all (\<lambda>c. c \<in> set [CHR '' '', CHR 0x09, CHR 0x0A, CHR 0x0D]) s
      | _ \<Rightarrow> True)"

fun no_number :: "jsnum \<Rightarrow> bool" where
  "no_number (Num v) = False"
| "no_number NUndefined = True"
| "no_number NNull = True"
| "no_number NaN = True"

definition spec_malformed :: "'a sale_scheme \<Rightarrow> bool" where
  "spec_malformed sale =
     (spec_blank (firstName sale) \<or> spec_blank (lastName sale) \<or> no_number (valor sale))"

text \<open>
  The records that are valid in the words of the specification, and their amounts.
\<close>

definition spec_valid_records :: "'a sale_scheme list \<Rightarrow> 'a sale_scheme list" where
  "spec_valid_records clients = filter (\<lambda>sale. \<not> spec_malformed sale) clients"

definition spec_valid_amounts :: "'a sale_scheme list \<Rightarrow> double list" where
  "spec_valid_amounts clients = map (\<lambda>sale. or_zero (valor sale)) (spec_valid_records clients)"

text \<open>
  The identity of a client in the words of the specification (its section 3): the
  tuple of first name, last name and handle or empty string, without regard to case.
\<close>

fun lower_text :: "jstext \<Rightarrow> jstext" where
  "lower_text (TStr s) = TStr (toLowerCase s)"
| "lower_text TUndefined = TUndefined"
| "lower_text TNull = TNull"

definition spec_ClientIdentity :: "'a sale_scheme \<Rightarrow> jstext \<times> jstext \<times> jstext" where
  "spec_ClientIdentity sale =
     (lower_text (firstName sale), lower_text (lastName sale),
      lower_text (or_empty (instagram sale)))"

text \<open>
  A field that is a string without the separator \<open>|\<close>, and a record whose two names
  and handle (or empty string) are such fields.
\<close>

fun no_pipe :: "jstext \<Rightarrow> bool" where
  "no_pipe (TStr s) = (CHR ''|'' \<notin> set s)"
| "no_pipe TUndefined = False"
| "no_pipe TNull = False"

definition pipe_free :: "'a sale_scheme \<Rightarrow> bool" where
  "pipe_free sale =
     (no_pipe (firstName sale) \<and> no_pipe (lastName sale) \<and> no_pipe (or_empty (instagram sale)))"





subsection \<open>Sample records\<close>

definition sale_of :: "string \<Rightarrow> string \<Rightarrow> jstext \<Rightarrow> jsnum \<Rightarrow> sale" where
  "sale_of f l i v = \<lparr>firstName = TStr f, lastName = TStr l, instagram = i, valor = v\<rparr>"

definition entry_of :: "string \<Rightarrow> string \<Rightarrow> jstext \<Rightarrow> double \<Rightarrow> string \<Rightarrow> entry" where
  "entry_of f l i t k =
     \<lparr>firstName = TStr f, lastName = TStr l, instagram = i, totalValor = t, entry_id = k\<rparr>"

text \<open>The three records of the scenario in section 8 of the specification.\<close>

definition ana_100 :: sale where
  "ana_100 = sale_of ''Ana'' ''Silva'' TUndefined (Num (whole 100))"

definition ana_50 :: sale where
  "ana_50 = sale_of ''ana'' ''SILVA'' TUndefined (Num (whole 50))"

definition bruno_30 :: sale where
  "bruno_30 = sale_of ''Bruno'' ''Costa'' (TStr ''@b'') (Num (whole 30))"

text \<open>
  Two more clients, for a list longer than three, and a client with an accented
  letter (the code unit \<open>0xC9\<close> is the capital \<open>E\<close> with acute, \<open>0xE9\<close> the small
  one).
\<close>

definition jose_upper :: sale where
  "jose_upper = sale_of (''JOS'' @ [CHR 0xC9]) ''LIMA'' TUndefined (Num (whole 10))"

definition jose_lower :: sale where
  "jose_lower = sale_of (''jos'' @ [CHR 0xE9]) ''lima'' TUndefined (Num (whole 5))"


definition carla_20 :: sale where
  "carla_20 = sale_of ''Carla'' ''Dias'' (TStr []) (Num (whole 20))"

definition davi_10 :: sale where
  "davi_10 = sale_of ''Davi'' ''Lima'' TNull (Num (whole 10))"

text \<open>A record with an empty first name, and one whose amount is \<open>NaN\<close>.\<close>

definition nameless_5 :: sale where
  "nameless_5 = sale_of [] ''Silva'' TUndefined (Num (whole 5))"

definition ana_nan :: sale where
  "ana_nan = sale_of ''Ana'' ''Silva'' TUndefined NaN"

text \<open>Two records that differ in both names and have the same joined string.\<close>

definition pipe_first :: sale where
  "pipe_first = sale_of ''a|b'' ''c'' TUndefined (Num (whole 1))"

definition pipe_last :: sale where
  "pipe_last = sale_of ''a'' ''b|c'' TUndefined (Num (whole 2))"

text \<open>
  Three amounts whose sum is rounded: \<open>2^53\<close> and twice 1 for one client and 1 for
  another.
\<close>

definition ana_2_53 :: sale where
  "ana_2_53 = sale_of ''Ana'' ''Silva'' TUndefined (Num (whole 9007199254740992))"

definition ana_1 :: sale where
  "ana_1 = sale_of ''Ana'' ''Silva'' TUndefined (Num (whole 1))"

definition bruno_1 :: sale where
  "bruno_1 = sale_of ''Bruno'' ''Costa'' (TStr ''@b'') (Num (whole 1))"

text \<open>A record with a negative amount.\<close>

definition ana_refund :: sale where
  "ana_refund = sale_of ''Ana'' ''Silva'' TUndefined (Num (whole (- 130)))"

section \<open>Numbers\<close>

subsection \<open>Rounding\<close>

declare excess.simps [simp del]

lemma excess_le: "n < 2 ^ (53 + t) \<Longrightarrow> excess n \<le> t"
proof (induction t arbitrary: n)
  case 0
  then show ?case by (simp add: excess.simps)
next
  case (Suc t)
  show ?case
  proof (cases "n < 2 ^ 53")
    case True
    then show ?thesis by (simp add: excess.simps)
  next
    case False
    from Suc.prems have "n < 2 ^ (53 + t) * 2"
      by (simp only: add_Suc_right power_Suc mult.commute)
    then have "n div 2 < 2 ^ (53 + t)" by (rule less_mult_imp_div_less)
    then have "excess (n div 2) \<le> t" by (rule Suc.IH)
    with False show ?thesis by (simp add: excess.simps [of n])
  qed
qed

lemma pow_excess_le: "0 < n \<Longrightarrow> 2 ^ excess n \<le> n"
proof (induction n rule: excess.induct)
  case (1 n)
  show ?case
  proof (cases "n < 2 ^ 53")
    case True
    with "1.prems" show ?thesis by (simp add: excess.simps)
  next
    case False
    then have "0 < n div 2" by simp
    with "1.IH" False have "2 ^ excess (n div 2) \<le> n div 2" by simp
    then have "2 * 2 ^ excess (n div 2) \<le> n" by simp
    with False show ?thesis by (simp add: excess.simps [of n])
  qed
qed


lemma round_half_even_exact: "0 < q \<Longrightarrow> q dvd k \<Longrightarrow> round_half_even k q * q = k"
  by (auto simp: round_half_even_def Let_def)

lemma round53_exact:
  assumes "\<bar>m\<bar> < 2 ^ 53"
  shows "round53 (m * 2 ^ j) = m * 2 ^ j"
proof -
  have "nat \<bar>m * 2 ^ j\<bar> = nat \<bar>m\<bar> * 2 ^ j"
    by (simp add: abs_mult nat_mult_distrib)
  also from assms have "\<dots> < 2 ^ 53 * 2 ^ j"
    by (simp add: nat_less_iff)
  finally have "nat \<bar>m * 2 ^ j\<bar> < 2 ^ (53 + j)"
    by (simp add: power_add)
  then have "excess (nat \<bar>m * 2 ^ j\<bar>) \<le> j" by (rule excess_le)
  then have "(2 :: int) ^ excess (nat \<bar>m * 2 ^ j\<bar>) dvd 2 ^ j"
    by (rule le_imp_power_dvd)
  then have "(2 :: int) ^ excess (nat \<bar>m * 2 ^ j\<bar>) dvd m * 2 ^ j"
    by (rule dvd_mult)
  then show ?thesis
    by (simp add: round53_def Let_def round_half_even_exact)
qed

lemma round_half_even_pos:
  assumes "0 < q" and "q \<le> k"
  shows "0 < round_half_even k q"
proof -
  from assms have "0 < k div q"
    by (simp add: pos_imp_zdiv_pos_iff)
  then show ?thesis
    unfolding round_half_even_def Let_def by simp
qed

lemma round_half_even_neg:
  assumes "0 < q" and "k \<le> - q"
  shows "round_half_even k q < 0"
proof -
  from assms have d: "k div q < 0"
    by (simp add: div_neg_pos_less0)
  have r: "0 \<le> k mod q" using assms(1) by simp
  have e: "k = q * (k div q) + k mod q" by simp
  show ?thesis
  proof (cases "k div q = - 1")
    case True
    with e have "k mod q = k + q" by simp
    with assms(2) r have "k mod q = 0" by simp
    with True assms(1) show ?thesis
      unfolding round_half_even_def Let_def by simp
  next
    case False
    with d have "k div q + 1 < 0" by simp
    then show ?thesis
      unfolding round_half_even_def Let_def by simp
  qed
qed

lemma int_pow_le: "2 ^ e \<le> nat \<bar>k\<bar> \<Longrightarrow> (2 :: int) ^ e \<le> \<bar>k\<bar>"
proof -
  assume "2 ^ e \<le> nat \<bar>k\<bar>"
  then have "int (2 ^ e) \<le> int (nat \<bar>k\<bar>)" by (simp only: of_nat_le_iff)
  then show ?thesis by simp
qed

lemma round53_pos: "0 < k \<Longrightarrow> 0 < round53 k"
proof -
  assume k: "0 < k"
  then have "2 ^ excess (nat \<bar>k\<bar>) \<le> nat \<bar>k\<bar>"
    by (intro pow_excess_le) simp
  then have "(2 :: int) ^ excess (nat \<bar>k\<bar>) \<le> \<bar>k\<bar>" by (rule int_pow_le)
  with k have "(2 :: int) ^ excess (nat \<bar>k\<bar>) \<le> k" by simp
  then have "0 < round_half_even k (2 ^ excess (nat \<bar>k\<bar>))"
    by (intro round_half_even_pos) simp_all
  then show ?thesis
    by (simp add: round53_def Let_def)
qed

lemma round53_neg: "k < 0 \<Longrightarrow> round53 k < 0"
proof -
  assume k: "k < 0"
  then have "2 ^ excess (nat \<bar>k\<bar>) \<le> nat \<bar>k\<bar>"
    by (intro pow_excess_le) simp
  then have "(2 :: int) ^ excess (nat \<bar>k\<bar>) \<le> \<bar>k\<bar>" by (rule int_pow_le)
  with k have "k \<le> - ((2 :: int) ^ excess (nat \<bar>k\<bar>))" by simp
  then have "round_half_even k (2 ^ excess (nat \<bar>k\<bar>)) < 0"
    by (intro round_half_even_neg) simp_all
  then show ?thesis
    by (simp add: round53_def Let_def mult_less_0_iff)
qed

lemma round53_zero: "round53 0 = 0"
  by (simp add: round53_def round_half_even_def)

subsection \<open>Sums, differences and the order\<close>

lemma positive_round_double: "positive (round_double k) \<longleftrightarrow> 0 < k"
proof -
  consider "0 < k" | "k = 0" | "k < 0" by linarith
  then show ?thesis
  proof cases
    case 1
    with round53_pos [of k] show ?thesis
      by (auto simp: round_double_def Let_def)
  next
    case 2
    then show ?thesis by (simp add: round_double_def round53_zero)
  next
    case 3
    with round53_neg [of k] show ?thesis
      by (auto simp: round_double_def Let_def)
  qed
qed


lemma comparator_sign:
  assumes "a \<noteq> DNaN" and "b \<noteq> DNaN"
  shows "positive (dsub b a) \<longleftrightarrow> \<not> dge a b"
  using assms
  by (cases a; cases b) (auto simp: dsub_def positive_round_double)

lemma dge_total: "a \<noteq> DNaN \<Longrightarrow> b \<noteq> DNaN \<Longrightarrow> dge a b \<or> dge b a"
  by (cases a; cases b) auto

lemma dge_trans: "dge a b \<Longrightarrow> dge b c \<Longrightarrow> dge a c"
  by (cases a; cases b; cases c) auto

lemma round_double_whole: "\<bar>m\<bar> < 2 ^ 53 \<Longrightarrow> round_double (whole m) = Fin (whole m)"
proof -
  assume m: "\<bar>m\<bar> < 2 ^ 53"
  then have "\<bar>whole m\<bar> < 2 ^ 53 * 2 ^ 1074"
    by (simp add: whole_def abs_mult)
  also have "(2 :: int) ^ 53 * 2 ^ 1074 \<le> 2 ^ 2098"
    by (simp only: power_add [symmetric]) simp
  finally have "\<bar>whole m\<bar> < 2 ^ 2098" .
  then have "\<not> 2 ^ 2098 \<le> whole m" "\<not> whole m \<le> - (2 ^ 2098)" by linarith+
  moreover from m have "round53 (whole m) = whole m"
    unfolding whole_def by (rule round53_exact)
  ultimately show ?thesis
    by (simp only: round_double_def Let_def if_False)
qed

lemma round_double_zero: "round_double 0 = Fin 0"
  by (simp add: round_double_def round53_zero)

lemma whole_add: "whole a + whole b = whole (a + b)"
  by (simp add: whole_def algebra_simps)

lemma dadd_whole:
  "\<bar>a + b\<bar> < 2 ^ 53 \<Longrightarrow> dadd (Fin (whole a)) (Fin (whole b)) = Fin (whole (a + b))"
  by (simp add: whole_add round_double_whole)

lemma whole_0: "whole 0 = 0"
  by (simp add: whole_def)

lemma dadd_zero_whole: "\<bar>a\<bar> < 2 ^ 53 \<Longrightarrow> dadd (Fin 0) (Fin (whole a)) = Fin (whole a)"
  using dadd_whole [of 0 a] by (simp add: whole_0)

lemma whole_less: "whole a < whole b \<longleftrightarrow> a < b"
  by (simp add: whole_def)

lemma whole_le: "whole a \<le> whole b \<longleftrightarrow> a \<le> b"
  by (simp add: whole_def)

lemma whole_eq: "whole a = whole b \<longleftrightarrow> a = b"
  by (simp add: whole_def)

subsection \<open>A sum that is rounded\<close>

lemma excess_step: "2 ^ 53 \<le> n \<Longrightarrow> excess n = Suc (excess (n div 2))"
  by (subst excess.simps) simp

lemma excess_small: "n < 2 ^ 53 \<Longrightarrow> excess n = 0"
  by (subst excess.simps) simp

lemma excess_shift: "2 ^ 53 \<le> n \<Longrightarrow> excess (n * 2 ^ j) = excess n + j"
proof (induction j)
  case 0
  then show ?case by simp
next
  case (Suc j)
  note Suc.prems
  also have "n \<le> n * 2 ^ Suc j" by simp
  finally have "excess (n * 2 ^ Suc j) = Suc (excess (n * 2 ^ Suc j div 2))"
    by (rule excess_step)
  also have "n * 2 ^ Suc j div 2 = n * 2 ^ j" by simp
  finally show ?case using Suc by simp
qed

lemma excess_tie: "excess (2 ^ 53 + 1) = 1"
proof -
  have "excess (2 ^ 53 + 1) = Suc (excess ((2 ^ 53 + 1) div 2))"
    by (rule excess_step) simp
  also have "(2 ^ 53 + 1) div 2 = (2 :: nat) ^ 52" by simp
  also have "excess (2 ^ 52) = 0" by (rule excess_small) simp
  finally show ?thesis by simp
qed

lemma round53_tie: "round53 (whole (2 ^ 53 + 1)) = whole (2 ^ 53)"
proof -
  have "nat \<bar>whole (2 ^ 53 + 1)\<bar> = nat (2 ^ 53 + 1) * nat (2 ^ 1074)"
    unfolding whole_def by (subst abs_of_nonneg) (simp_all add: nat_mult_distrib)
  also have "nat (2 ^ 53 + 1) = 2 ^ 53 + 1" by simp
  also have "nat (2 ^ 1074) = 2 ^ 1074" by simp
  finally have n: "nat \<bar>whole (2 ^ 53 + 1)\<bar> = (2 ^ 53 + 1) * 2 ^ 1074" .
  have "excess ((2 ^ 53 + 1) * 2 ^ 1074) = excess (2 ^ 53 + 1) + 1074"
    by (rule excess_shift) simp
  then have e: "excess (nat \<bar>whole (2 ^ 53 + 1)\<bar>) = Suc 1074"
    unfolding n excess_tie by simp
  have d: "whole (2 ^ 53 + 1) div 2 ^ Suc 1074 = 2 ^ 52"
    unfolding whole_def power_Suc by (subst div_mult_mult2) simp_all
  have m: "whole (2 ^ 53 + 1) mod 2 ^ Suc 1074 = 2 ^ 1074"
    unfolding whole_def power_Suc by (subst mult_mod_right [symmetric] mod_mult_mult2) simp_all
  have t: "2 * (2 :: int) ^ 1074 = 2 ^ Suc 1074" by simp
  show ?thesis
    unfolding round53_def e Let_def round_half_even_def d m t
    by (simp add: whole_def)
qed


lemma round_double_tie:
  "round_double (whole 9007199254740993) = Fin (whole 9007199254740992)"
proof -
  have r: "round53 (whole 9007199254740993) = whole 9007199254740992"
    using round53_tie by simp
  have "whole 9007199254740992 < 2 ^ 2098" "- (2 ^ 2098) < whole 9007199254740992"
    by (simp_all add: whole_def)
  then show ?thesis
    unfolding round_double_def r Let_def by simp
qed

lemma round_double_2_53:
  "round_double (whole 9007199254740992) = Fin (whole 9007199254740992)"
proof -
  have "round53 (2 ^ 52 * 2 ^ 1075) = 2 ^ 52 * 2 ^ 1075"
    by (rule round53_exact) simp
  moreover have "(2 :: int) ^ 52 * 2 ^ 1075 = whole 9007199254740992"
    by (simp add: whole_def)
  ultimately have r: "round53 (whole 9007199254740992) = whole 9007199254740992"
    by simp
  have "whole 9007199254740992 < 2 ^ 2098" "- (2 ^ 2098) < whole 9007199254740992"
    by (simp_all add: whole_def)
  then show ?thesis
    unfolding round_double_def r Let_def by simp
qed


section \<open>The identifier\<close>

subsection \<open>Lower case and the separator\<close>

lemma toLowerCase_append: "toLowerCase (a @ b) = toLowerCase a @ toLowerCase b"
  by (simp add: toLowerCase_def)

lemma of_char_toLowerChar:
  "(of_char (toLowerChar c) :: nat) = (if is_capital c then of_char c + 32 else of_char c)"
  by (auto simp: toLowerChar_def is_capital_def Let_def)

lemma char_eqI: "(of_char c :: nat) = of_char d \<Longrightarrow> c = d"
  by (metis char_of_char)

lemma toLowerChar_pipe: "toLowerChar c = CHR ''|'' \<longleftrightarrow> c = CHR ''|''"
proof
  assume "toLowerChar c = CHR ''|''"
  then have "(of_char (toLowerChar c) :: nat) = 124" by simp
  then have "\<not> is_capital c"
    by (auto simp: of_char_toLowerChar is_capital_def Let_def split: if_splits)
  with \<open>toLowerChar c = CHR ''|''\<close> show "c = CHR ''|''"
    by (simp add: toLowerChar_def)
next
  assume "c = CHR ''|''"
  then show "toLowerChar c = CHR ''|''"
    by (simp add: toLowerChar_def is_capital_def)
qed




lemma pipe_toLowerCase: "CHR ''|'' \<in> set (toLowerCase s) \<longleftrightarrow> CHR ''|'' \<in> set s"
  by (induction s) (simp_all add: toLowerCase_def toLowerChar_pipe eq_commute [of "CHR ''|''"])

lemma toLowerCase_Cons_pipe: "toLowerCase (CHR ''|'' # s) = CHR ''|'' # toLowerCase s"
  by (simp add: toLowerCase_def toLowerChar_pipe)

lemma identifier_parts:
  "identifier s =
     toLowerCase (ToString (firstName s)) @ CHR ''|'' #
     toLowerCase (ToString (lastName s)) @ CHR ''|'' #
     toLowerCase (ToString (or_empty (instagram s)))"
  by (simp add: identifier_def toLowerCase_append toLowerCase_Cons_pipe)

lemma pipe_in_identifier: "CHR ''|'' \<in> set (identifier s)"
  by (simp add: identifier_parts)





lemma no_pipe_lower: "no_pipe x \<Longrightarrow> lower_text x = TStr (toLowerCase (ToString x))"
  by (cases x) simp_all

lemma no_pipe_ToString: "no_pipe x \<Longrightarrow> CHR ''|'' \<notin> set (toLowerCase (ToString x))"
  by (cases x) (simp_all add: pipe_toLowerCase)

lemma split_at_separator:
  assumes "c \<notin> set a" and "c \<notin> set a'"
  shows "a @ c # r = a' @ c # r' \<longleftrightarrow> a = a' \<and> r = r'"
  using assms
proof (induction a arbitrary: a')
  case Nil
  then show ?case by (cases a') auto
next
  case (Cons x a)
  then show ?case by (cases a') auto
qed

lemma joined_eq_iff:
  assumes "c \<notin> set a" and "c \<notin> set a'" and "c \<notin> set b" and "c \<notin> set b'"
  shows "a @ c # b @ c # h = a' @ c # b' @ c # h' \<longleftrightarrow> a = a' \<and> b = b' \<and> h = h'"
  using assms by (simp add: split_at_separator)

lemma pipe_free_identifier:
  assumes "pipe_free s" and "pipe_free t"
  shows "identifier s = identifier t \<longleftrightarrow> spec_ClientIdentity s = spec_ClientIdentity t"
proof -
  from assms have n: "no_pipe (firstName s)" "no_pipe (lastName s)" "no_pipe (or_empty (instagram s))"
    "no_pipe (firstName t)" "no_pipe (lastName t)" "no_pipe (or_empty (instagram t))"
    by (simp_all add: pipe_free_def)
  show ?thesis
    unfolding identifier_parts spec_ClientIdentity_def
    by (simp add: joined_eq_iff n no_pipe_ToString no_pipe_lower)
qed

section \<open>The aggregation\<close>

subsection \<open>The reducer never throws\<close>

lemma reducer_aggregate: "reducer acc sale = Inr (aggregate acc sale)"
  by (cases "map_of acc (identifier sale)")
     (simp_all add: reducer_def aggregate_def Let_def update_conv')

lemma Array_reduce_aggregate: "Array_reduce reducer acc xs = Inr (foldl aggregate acc xs)"
  by (induction xs arbitrary: acc) (simp_all add: reducer_aggregate)

lemma clientTotals_aggregate: "clientTotals clients = Inr (foldl aggregate [] clients)"
  by (simp add: clientTotals_def Array_reduce_aggregate)

subsection \<open>Keys and stored objects\<close>

lemma map_of_aggregate:
  "map_of (aggregate acc s) =
     (map_of acc)(identifier s \<mapsto>
        (case map_of acc (identifier s) of None \<Rightarrow> new_entry s (identifier s) | Some e \<Rightarrow> e)
          \<lparr>totalValor := dadd (totalValor (case map_of acc (identifier s) of
               None \<Rightarrow> new_entry s (identifier s) | Some e \<Rightarrow> e)) (or_zero (valor s))\<rparr>)"
  by (simp add: aggregate_def Let_def update_conv')

lemma keys_aggregate:
  "map fst (aggregate acc s) =
     (if identifier s \<in> set (map fst acc) then map fst acc else map fst acc @ [identifier s])"
  by (simp add: aggregate_def Let_def update_keys)

lemma distinct_foldl_aggregate:
  "distinct (map fst acc) \<Longrightarrow> distinct (map fst (foldl aggregate acc xs))"
  by (induction xs arbitrary: acc) (simp_all add: keys_aggregate)

lemma dom_aggregate: "fst ` set (aggregate acc s) = insert (identifier s) (fst ` set acc)"
  by (simp add: aggregate_def Let_def dom_update)

lemma dom_foldl_aggregate:
  "fst ` set (foldl aggregate acc xs) = fst ` set acc \<union> identifier ` set xs"
  by (induction xs arbitrary: acc) (simp_all add: dom_aggregate)

text \<open>
  The object found under a key after the whole pass: the one that was there with the
  amounts of the key added, or else the one made from the first record of that key.
\<close>

lemma map_of_foldl_aggregate:
  "map_of (foldl aggregate acc xs) k =
     (case map_of acc k of
        Some e \<Rightarrow> Some (e\<lparr>totalValor := foldl dadd (totalValor e) (shared_amounts k xs)\<rparr>)
      | None \<Rightarrow>
          (case find (\<lambda>s. identifier s = k) xs of
             None \<Rightarrow> None
           | Some s \<Rightarrow>
               Some ((new_entry s k)\<lparr>totalValor := foldl dadd (Fin 0) (shared_amounts k xs)\<rparr>)))"
proof (induction xs arbitrary: acc)
  case Nil
  show ?case by (simp add: shared_amounts_def split: option.split)
next
  case (Cons x xs)
  show ?case
    by (simp add: Cons.IH map_of_aggregate shared_amounts_def new_entry_def split: option.split)
qed

lemma map_of_clientTotals:
  "map_of (foldl aggregate [] clients) k =
     (case find (\<lambda>s. identifier s = k) clients of
        None \<Rightarrow> None
      | Some s \<Rightarrow>
          Some ((new_entry s k)\<lparr>totalValor := foldl dadd (Fin 0) (shared_amounts k clients)\<rparr>))"
  by (simp add: map_of_foldl_aggregate)

lemma distinct_clientTotals: "distinct (map fst (foldl aggregate [] clients))"
  by (simp add: distinct_foldl_aggregate)

lemma map_of_clientTotals_Some:
  assumes "map_of (foldl aggregate [] clients) k = Some e"
  shows "\<exists>s. find (\<lambda>s. identifier s = k) clients = Some s
           \<and> firstName e = firstName s \<and> lastName e = lastName s
           \<and> instagram e = instagram s
           \<and> totalValor e = foldl dadd (Fin 0) (shared_amounts k clients) \<and> entry_id e = k"
  using assms by (auto simp: map_of_clientTotals new_entry_def split: option.splits)

lemma entry_id_is_key:
  assumes "p \<in> set (foldl aggregate [] clients)"
  shows "entry_id (snd p) = fst p"
proof -
  from assms have "(fst p, snd p) \<in> set (foldl aggregate [] clients)" by simp
  then have "map_of (foldl aggregate [] clients) (fst p) = Some (snd p)"
    by (simp only: map_of_eq_Some_iff [OF distinct_clientTotals])
  from map_of_clientTotals_Some [OF this] show ?thesis by blast
qed

lemma entry_ids_are_keys:
  "map entry_id (Object_values (foldl aggregate [] clients)) = map fst (foldl aggregate [] clients)"
  by (simp add: Object_values_def entry_id_is_key)

lemma entry_in_clientTotals:
  assumes "e \<in> set (Object_values (foldl aggregate [] clients))"
  shows "map_of (foldl aggregate [] clients) (entry_id e) = Some e"
proof -
  from assms obtain k where k: "(k, e) \<in> set (foldl aggregate [] clients)"
    by (auto simp: Object_values_def)
  then have "map_of (foldl aggregate [] clients) k = Some e"
    by (simp add: distinct_clientTotals)
  moreover from entry_id_is_key [OF k] have "entry_id e = k" by simp
  ultimately show ?thesis by simp
qed

lemma sale_in_clientTotals:
  assumes "s \<in> set clients"
  shows "\<exists>e. map_of (foldl aggregate [] clients) (identifier s) = Some e
           \<and> e \<in> set (Object_values (foldl aggregate [] clients))"
proof -
  from assms have "find (\<lambda>x. identifier x = identifier s) clients \<noteq> None"
    by (auto simp: find_None_iff)
  then obtain e where m: "map_of (foldl aggregate [] clients) (identifier s) = Some e"
    by (auto simp: map_of_clientTotals)
  from m have "(identifier s, e) \<in> set (foldl aggregate [] clients)"
    by (rule map_of_SomeD)
  then have "e \<in> set (Object_values (foldl aggregate [] clients))"
    by (force simp: Object_values_def)
  with m show ?thesis by blast
qed

subsection \<open>The totals are numbers\<close>

lemma or_zero_finite: "\<exists>k. or_zero v = Fin k"
  by (cases v) simp_all

lemma dadd_Fin_not_NaN: "t \<noteq> DNaN \<Longrightarrow> dadd t (Fin k) \<noteq> DNaN"
  by (cases t) (simp_all add: round_double_def Let_def)

lemma foldl_dadd_not_NaN:
  "t \<noteq> DNaN \<Longrightarrow> foldl dadd t (shared_amounts k xs) \<noteq> DNaN"
proof (induction xs arbitrary: t)
  case Nil
  then show ?case by (simp add: shared_amounts_def)
next
  case (Cons x xs)
  obtain j where j: "or_zero (valor x) = Fin j"
    using or_zero_finite by blast
  from Cons.prems have "dadd t (Fin j) \<noteq> DNaN" by (rule dadd_Fin_not_NaN)
  then have "foldl dadd (dadd t (Fin j)) (shared_amounts k xs) \<noteq> DNaN"
    by (rule Cons.IH)
  with Cons show ?case
    by (simp add: shared_amounts_def j)
qed

lemma totals_not_NaN:
  assumes "e \<in> set (Object_values (foldl aggregate [] clients))"
  shows "totalValor e \<noteq> DNaN"
proof -
  from map_of_clientTotals_Some [OF entry_in_clientTotals [OF assms]]
  have "totalValor e = foldl dadd (Fin 0) (shared_amounts (entry_id e) clients)" by blast
  then show ?thesis by (simp add: foldl_dadd_not_NaN)
qed

subsection \<open>The sort\<close>

lemma set_insert_cmp: "set (insert_cmp cmp x ys) = insert x (set ys)"
  by (induction ys) auto

lemma length_insert_cmp: "length (insert_cmp cmp x ys) = Suc (length ys)"
  by (induction ys) auto

lemma set_sort_cmp: "set (sort_cmp cmp xs) = set xs"
  by (induction xs) (simp_all add: sort_cmp_def set_insert_cmp)

lemma length_sort_cmp: "length (sort_cmp cmp xs) = length xs"
  by (induction xs) (simp_all add: sort_cmp_def length_insert_cmp)

lemma by_total_desc_sign:
  assumes "totalValor x \<noteq> DNaN" and "totalValor y \<noteq> DNaN"
  shows "positive (by_total_desc x y) \<longleftrightarrow> \<not> dge (totalValor x) (totalValor y)"
  unfolding by_total_desc_def using assms by (rule comparator_sign)

lemma sorted_insert_cmp:
  assumes "sorted_wrt (\<lambda>a b. dge (totalValor a) (totalValor b)) ys"
    and "totalValor x \<noteq> DNaN" and "\<forall>y\<in>set ys. totalValor y \<noteq> DNaN"
  shows "sorted_wrt (\<lambda>a b. dge (totalValor a) (totalValor b)) (insert_cmp by_total_desc x ys)"
  using assms
proof (induction ys)
  case Nil
  then show ?case by simp
next
  case (Cons y ys)
  show ?case
  proof (cases "positive (by_total_desc x y)")
    case True
    with Cons.prems have "\<not> dge (totalValor x) (totalValor y)"
      by (simp add: by_total_desc_sign)
    with Cons.prems have yx: "dge (totalValor y) (totalValor x)"
      using dge_total [of "totalValor x" "totalValor y"] by simp
    from Cons have "sorted_wrt (\<lambda>a b. dge (totalValor a) (totalValor b))
        (insert_cmp by_total_desc x ys)"
      by simp
    with True yx Cons.prems show ?thesis
      by (auto simp: set_insert_cmp)
  next
    case False
    with Cons.prems have xy: "dge (totalValor x) (totalValor y)"
      by (simp add: by_total_desc_sign)
    have "dge (totalValor x) (totalValor z)" if "z \<in> set ys" for z
    proof -
      from Cons.prems that have "dge (totalValor y) (totalValor z)" by simp
      with xy show ?thesis by (rule dge_trans)
    qed
    with False xy Cons.prems show ?thesis by simp
  qed
qed

lemma sorted_sort_cmp:
  "\<forall>x\<in>set xs. totalValor x \<noteq> DNaN \<Longrightarrow>
     sorted_wrt (\<lambda>a b. dge (totalValor a) (totalValor b)) (sort_cmp by_total_desc xs)"
proof (induction xs)
  case Nil
  then show ?case by (simp add: sort_cmp_def)
next
  case (Cons x xs)
  then have "sorted_wrt (\<lambda>a b. dge (totalValor a) (totalValor b))
      (insert_cmp by_total_desc x (sort_cmp by_total_desc xs))"
    by (intro sorted_insert_cmp) (simp_all add: set_sort_cmp)
  then show ?case by (simp add: sort_cmp_def)
qed

lemma rankedClients_aggregate:
  "rankedClients clients =
     Inr (take 10 (sort_cmp by_total_desc (Object_values (foldl aggregate [] clients))))"
  by (simp add: rankedClients_def clientTotals_aggregate)

subsection \<open>Evaluation on given records\<close>

text \<open>
  The sample amounts are whole numbers: their sums are exact and their differences
  have the sign of the difference of the whole numbers.
\<close>

lemma positive_dsub_whole:
  "positive (dsub (Fin (whole b)) (Fin (whole a))) \<longleftrightarrow> a < b"
  by (auto simp: comparator_sign whole_le)

lemmas ranking_eval =
  rankedClients_def clientTotals_def reducer_def new_entry_def identifier_def
  toLowerCase_def toLowerChar_def is_capital_def char_of_def bit_0 Object_values_def
  sort_cmp_def by_total_desc_def sale_of_def entry_of_def Let_def
  ana_100_def ana_50_def bruno_30_def carla_20_def davi_10_def nameless_5_def ana_nan_def
  pipe_first_def pipe_last_def ana_refund_def jose_upper_def jose_lower_def
  ana_2_53_def ana_1_def bruno_1_def round_double_2_53 round_double_tie
  round_double_zero
  whole_add round_double_whole positive_dsub_whole whole_eq

subsection \<open>One entry for each key\<close>



lemma entry_for_eq_iff:
  assumes "s \<in> set clients" and "t \<in> set clients"
  shows "entry_for (foldl aggregate [] clients) s = entry_for (foldl aggregate [] clients) t
           \<longleftrightarrow> identifier s = identifier t"
proof
  assume eq: "entry_for (foldl aggregate [] clients) s = entry_for (foldl aggregate [] clients) t"
  from sale_in_clientTotals [OF assms(1)] obtain e
    where s: "map_of (foldl aggregate [] clients) (identifier s) = Some e" by blast
  with eq have t: "map_of (foldl aggregate [] clients) (identifier t) = Some e"
    by (simp add: entry_for_def)
  from map_of_clientTotals_Some [OF s] map_of_clientTotals_Some [OF t]
  show "identifier s = identifier t" by auto
next
  assume "identifier s = identifier t"
  then show "entry_for (foldl aggregate [] clients) s = entry_for (foldl aggregate [] clients) t"
    by (simp add: entry_for_def)
qed

subsection \<open>The items of the panel\<close>

lemma nth_enumerate_map:
  "i < length xs \<Longrightarrow> map f (enumerate 0 xs) ! i = f (i, xs ! i)"
  by (simp add: nth_enumerate_eq)

section \<open>The claims\<close>

subsection \<open>C1: the totals and the amounts\<close>

text \<open>
  C1 as it is worded fails twice. A record that the specification calls malformed is
  aggregated: the record with an empty first name and the amount 5 gives a total of 5,
  while no record of the list is valid. And the totals are sums of doubles, which are
  rounded: for the amounts \<open>2^53\<close> and 1 of one client and 1 of another, the first
  total is \<open>2^53\<close>, so the totals sum to \<open>2^53 + 1\<close> and the amounts to \<open>2^53 + 2\<close>.
\<close>

theorem valid_amounts_counterexample:
  "spec_malformed nameless_5
   \<and> spec_valid_amounts [nameless_5] = []
   \<and> clientTotals [nameless_5]
       = Inr [(''|silva|'', entry_of [] ''Silva'' TUndefined (Fin (whole 5)) ''|silva|'')]
   \<and> clientTotals [ana_2_53, bruno_1, ana_1]
       = Inr [(''ana|silva|'',
               entry_of ''Ana'' ''Silva'' TUndefined (Fin (whole 9007199254740992)) ''ana|silva|''),
              (''bruno|costa|@b'',
               entry_of ''Bruno'' ''Costa'' (TStr ''@b'') (Fin (whole 1)) ''bruno|costa|@b'')]
   \<and> whole 9007199254740992 + whole 1 < whole 9007199254740992 + whole 1 + whole 1"
  by (simp add: spec_malformed_def spec_blank_def spec_valid_amounts_def
      spec_valid_records_def ranking_eval whole_less)

text \<open>
  C1, amended: for every finite list of sale records the reducer returns the grouped
  set, which has exactly one entry for each identifier of a record of the list, valid
  or not; and the \<open>totalValor\<close> of each entry is the running sum, from zero, in the
  order of the input and as the program adds numbers, of the amounts \<open>valor || 0\<close> of
  exactly the records whose identifier is the entry's. (No equality between the sum
  of the totals and the sum of the amounts is stated: the additions round.)
\<close>

theorem aggregation_correct:
  "\<exists>totals. clientTotals clients = Inr totals
     \<and> distinct (map entry_id (Object_values totals))
     \<and> set (map entry_id (Object_values totals)) = identifier ` set clients
     \<and> (\<forall>e\<in>set (Object_values totals).
           totalValor e = foldl dadd (Fin 0) (shared_amounts (entry_id e) clients))"
proof -
  let ?totals = "foldl aggregate [] clients"
  have "distinct (map entry_id (Object_values ?totals))"
    by (simp only: entry_ids_are_keys distinct_clientTotals)
  moreover have "set (map entry_id (Object_values ?totals)) = identifier ` set clients"
    by (simp only: entry_ids_are_keys) (simp add: dom_foldl_aggregate)
  moreover have "totalValor e = foldl dadd (Fin 0) (shared_amounts (entry_id e) clients)"
    if "e \<in> set (Object_values ?totals)" for e
    using map_of_clientTotals_Some [OF entry_in_clientTotals [OF that]] by blast
  ultimately show ?thesis
    by (simp add: clientTotals_aggregate)
qed

theorem aggregation_correct_witness:
  "clientTotals [ana_100, ana_50, bruno_30]
     = Inr [(''ana|silva|'', entry_of ''Ana'' ''Silva'' TUndefined (Fin (whole 150)) ''ana|silva|''),
            (''bruno|costa|@b'',
             entry_of ''Bruno'' ''Costa'' (TStr ''@b'') (Fin (whole 30)) ''bruno|costa|@b'')]
   \<and> entry_of ''Ana'' ''Silva'' TUndefined (Fin (whole 150)) ''ana|silva|''
       \<in> set (Object_values
           [(''ana|silva|'', entry_of ''Ana'' ''Silva'' TUndefined (Fin (whole 150)) ''ana|silva|''),
            (''bruno|costa|@b'',
             entry_of ''Bruno'' ''Costa'' (TStr ''@b'') (Fin (whole 30)) ''bruno|costa|@b'')])
   \<and> shared_amounts ''ana|silva|'' [ana_100, ana_50, bruno_30] = [Fin (whole 100), Fin (whole 50)]
   \<and> totalValor (entry_of ''Ana'' ''Silva'' TUndefined (Fin (whole 150)) ''ana|silva|'')
       = foldl dadd (Fin 0) (shared_amounts ''ana|silva|'' [ana_100, ana_50, bruno_30])"
proof -
  have c: "clientTotals [ana_100, ana_50, bruno_30]
     = Inr [(''ana|silva|'', entry_of ''Ana'' ''Silva'' TUndefined (Fin (whole 150)) ''ana|silva|''),
            (''bruno|costa|@b'',
             entry_of ''Bruno'' ''Costa'' (TStr ''@b'') (Fin (whole 30)) ''bruno|costa|@b'')]"
    by (simp add: ranking_eval)
  have a: "shared_amounts ''ana|silva|'' [ana_100, ana_50, bruno_30]
      = [Fin (whole 100), Fin (whole 50)]"
    by (simp add: shared_amounts_def ranking_eval)
  from aggregation_correct [of "[ana_100, ana_50, bruno_30]"] show ?thesis
    unfolding c by (simp add: Object_values_def entry_of_def a)
qed

subsection \<open>C2: records the specification calls malformed\<close>

text \<open>
  C2 as it is worded fails: the record with an empty first name is malformed in the
  words of the specification, and leaving it out would give the empty ranking, but the
  ranking has an entry for it, with its amount.
\<close>

theorem malformed_excluded_counterexample:
  "spec_malformed nameless_5
   \<and> rankedClients (spec_valid_records [nameless_5]) = Inr []
   \<and> rankedClients [nameless_5]
       = Inr [entry_of [] ''Silva'' TUndefined (Fin (whole 5)) ''|silva|'']"
  by (simp add: spec_malformed_def spec_blank_def spec_valid_records_def ranking_eval)

text \<open>
  C2, amended: no record is left out and none makes the computation fail. For every
  input list whose amounts are finite numbers, \<open>NaN\<close>, \<open>null\<close> or absent, the reducer
  and the ranking return normally, and every record of the list, whatever its names,
  has a client entry under its identifier (an absent name reads as the text
  \<open>undefined\<close>); the \<open>totalValor\<close> of that entry is the running sum of the amounts
  \<open>valor || 0\<close> of the records of that identifier, in which a record whose amount is
  absent, \<open>null\<close> or \<open>NaN\<close> counts as zero. An amount of another type, such as a
  string, is not covered.
\<close>

theorem every_record_is_aggregated:
  "\<exists>totals out. clientTotals clients = Inr totals \<and> rankedClients clients = Inr out
     \<and> (\<forall>sale\<in>set clients.
           (\<exists>e\<in>set (Object_values totals).
              entry_id e = identifier sale
              \<and> totalValor e
                  = foldl dadd (Fin 0) (shared_amounts (identifier sale) clients))
           \<and> (no_number (valor sale) \<longrightarrow> or_zero (valor sale) = Fin 0))"
proof -
  have "\<exists>e\<in>set (Object_values (foldl aggregate [] clients)).
           entry_id e = identifier sale
           \<and> totalValor e = foldl dadd (Fin 0) (shared_amounts (identifier sale) clients)"
    if "sale \<in> set clients" for sale
  proof -
    from sale_in_clientTotals [OF that] obtain e
      where m: "map_of (foldl aggregate [] clients) (identifier sale) = Some e"
        and e: "e \<in> set (Object_values (foldl aggregate [] clients))"
      by blast
    from map_of_clientTotals_Some [OF m] e show ?thesis by auto
  qed
  moreover have "no_number v \<longrightarrow> or_zero v = Fin 0" for v
    by (cases v) simp_all
  ultimately show ?thesis
    by (simp add: clientTotals_aggregate rankedClients_aggregate)
qed

theorem every_record_is_aggregated_witness:
  "nameless_5 \<in> set [nameless_5, ana_nan, ana_100] \<and> ana_nan \<in> set [nameless_5, ana_nan, ana_100]
   \<and> spec_malformed nameless_5 \<and> spec_malformed ana_nan \<and> no_number (valor ana_nan)
   \<and> clientTotals [nameless_5, ana_nan, ana_100]
       = Inr [(''|silva|'', entry_of [] ''Silva'' TUndefined (Fin (whole 5)) ''|silva|''),
              (''ana|silva|'', entry_of ''Ana'' ''Silva'' TUndefined (Fin (whole 100)) ''ana|silva|'')]
   \<and> identifier nameless_5 = ''|silva|'' \<and> identifier ana_nan = ''ana|silva|''
   \<and> shared_amounts ''|silva|'' [nameless_5, ana_nan, ana_100] = [Fin (whole 5)]
   \<and> shared_amounts ''ana|silva|'' [nameless_5, ana_nan, ana_100] = [Fin 0, Fin (whole 100)]"
proof -
  have c: "clientTotals [nameless_5, ana_nan, ana_100]
       = Inr [(''|silva|'', entry_of [] ''Silva'' TUndefined (Fin (whole 5)) ''|silva|''),
              (''ana|silva|'', entry_of ''Ana'' ''Silva'' TUndefined (Fin (whole 100)) ''ana|silva|'')]"
    by (simp add: ranking_eval)
  from every_record_is_aggregated [of "[nameless_5, ana_nan, ana_100]"] show ?thesis
    unfolding c
    by (simp add: shared_amounts_def spec_malformed_def spec_blank_def ranking_eval)
qed

subsection \<open>C3: the key and the identity tuple\<close>

text \<open>
  C3 as it is worded fails when a name holds the separator: the records with the names
  \<open>a|b\<close>, \<open>c\<close> and \<open>a\<close>, \<open>b|c\<close> have different identity tuples and the same
  joined string, and they are added to the same entry.
\<close>

theorem identity_soundness_counterexample:
  "spec_ClientIdentity pipe_first \<noteq> spec_ClientIdentity pipe_last
   \<and> clientTotals [pipe_first, pipe_last]
       = Inr [(''a|b|c|'', entry_of ''a|b'' ''c'' TUndefined (Fin (whole 3)) ''a|b|c|'')]
   \<and> entry_for [(''a|b|c|'', entry_of ''a|b'' ''c'' TUndefined (Fin (whole 3)) ''a|b|c|'')] pipe_first
       = entry_for [(''a|b|c|'', entry_of ''a|b'' ''c'' TUndefined (Fin (whole 3)) ''a|b|c|'')] pipe_last"
  by (simp add: spec_ClientIdentity_def entry_for_def ranking_eval)

text \<open>
  C3, amended: two records of the input are added to the same client entry if and only
  if their identifiers, the joined strings in lower case, are equal; when the two names
  of both records are strings and neither the names nor the handles hold the character
  \<open>|\<close>, that is if and only if their identity tuples (first name, last name,
  handle or empty string, without regard to case) are equal.
\<close>

theorem same_entry_iff_same_key:
  assumes "s \<in> set clients" and "t \<in> set clients"
  shows "\<exists>totals. clientTotals clients = Inr totals
     \<and> (entry_for totals s = entry_for totals t \<longleftrightarrow> identifier s = identifier t)
     \<and> (pipe_free s \<and> pipe_free t \<longrightarrow>
          (entry_for totals s = entry_for totals t
             \<longleftrightarrow> spec_ClientIdentity s = spec_ClientIdentity t))"
  using entry_for_eq_iff [OF assms]
  by (simp add: clientTotals_aggregate pipe_free_identifier)

theorem same_entry_iff_same_key_witness:
  "ana_100 \<in> set [ana_100, bruno_30, ana_50] \<and> ana_50 \<in> set [ana_100, bruno_30, ana_50]
   \<and> pipe_free ana_100 \<and> pipe_free ana_50
   \<and> spec_ClientIdentity ana_100 = spec_ClientIdentity ana_50
   \<and> (\<exists>totals. clientTotals [ana_100, bruno_30, ana_50] = Inr totals
         \<and> entry_for totals ana_100 = entry_for totals ana_50)"
proof -
  have m: "ana_100 \<in> set [ana_100, bruno_30, ana_50]" "ana_50 \<in> set [ana_100, bruno_30, ana_50]"
    by simp_all
  have p: "pipe_free ana_100" "pipe_free ana_50"
    by (simp_all add: pipe_free_def ranking_eval)
  have i: "spec_ClientIdentity ana_100 = spec_ClientIdentity ana_50"
    by (simp add: spec_ClientIdentity_def ranking_eval)
  from same_entry_iff_same_key [OF m] p i m show ?thesis by auto
qed

subsection \<open>C4: the names of an entry\<close>

text \<open>
  C4 as it is worded fails: of the two records \<open>Ana Silva\<close> and \<open>ana SILVA\<close>, the
  last one seen has the first name \<open>ana\<close>, and the entry shows \<open>Ana\<close>.
\<close>

theorem last_seen_counterexample:
  "rankedClients [ana_100, ana_50] = Inr [entry_of ''Ana'' ''Silva'' TUndefined (Fin (whole 150)) ''ana|silva|'']
   \<and> identifier (last [ana_100, ana_50]) = ''ana|silva|''
   \<and> firstName (last [ana_100, ana_50]) = TStr ''ana''
   \<and> firstName (entry_of ''Ana'' ''Silva'' TUndefined (Fin (whole 150)) ''ana|silva|'')
        \<noteq> firstName (last [ana_100, ana_50])"
  by (simp add: ranking_eval)

text \<open>
  C4, amended: for every identifier with at least one record, the \<open>firstName\<close>,
  \<open>lastName\<close> and \<open>instagram\<close> of its entry are those of the first record of that
  identifier in the input list (the reducer copies them when it makes the entry and
  never writes them again).
\<close>

theorem names_from_first_record:
  "\<exists>totals. clientTotals clients = Inr totals
     \<and> (\<forall>e\<in>set (Object_values totals).
           \<exists>sale. find (\<lambda>s. identifier s = entry_id e) clients = Some sale
             \<and> firstName e = firstName sale \<and> lastName e = lastName sale
             \<and> instagram e = instagram sale)"
proof -
  have "\<exists>sale. find (\<lambda>s. identifier s = entry_id e) clients = Some sale
             \<and> firstName e = firstName sale \<and> lastName e = lastName sale
             \<and> instagram e = instagram sale"
    if "e \<in> set (Object_values (foldl aggregate [] clients))" for e
    using map_of_clientTotals_Some [OF entry_in_clientTotals [OF that]] by blast
  then show ?thesis
    by (simp add: clientTotals_aggregate)
qed

theorem names_from_first_record_witness:
  "clientTotals [ana_100, ana_50]
     = Inr [(''ana|silva|'', entry_of ''Ana'' ''Silva'' TUndefined (Fin (whole 150)) ''ana|silva|'')]
   \<and> entry_of ''Ana'' ''Silva'' TUndefined (Fin (whole 150)) ''ana|silva|''
       \<in> set (Object_values [(''ana|silva|'', entry_of ''Ana'' ''Silva'' TUndefined (Fin (whole 150)) ''ana|silva|'')])
   \<and> find (\<lambda>s. identifier s = ''ana|silva|'') [ana_100, ana_50] = Some ana_100
   \<and> firstName (entry_of ''Ana'' ''Silva'' TUndefined (Fin (whole 150)) ''ana|silva|'') = firstName ana_100
   \<and> lastName (entry_of ''Ana'' ''Silva'' TUndefined (Fin (whole 150)) ''ana|silva|'') = lastName ana_100
   \<and> instagram (entry_of ''Ana'' ''Silva'' TUndefined (Fin (whole 150)) ''ana|silva|'') = instagram ana_100"
proof -
  let ?e = "entry_of ''Ana'' ''Silva'' TUndefined (Fin (whole 150)) ''ana|silva|''"
  have c: "clientTotals [ana_100, ana_50] = Inr [(''ana|silva|'', ?e)]"
    by (simp add: ranking_eval)
  have f: "find (\<lambda>s. identifier s = ''ana|silva|'') [ana_100, ana_50] = Some ana_100"
    by (simp add: ranking_eval)
  have m: "?e \<in> set (Object_values [(''ana|silva|'', ?e)])"
    by (simp add: Object_values_def)
  have k: "entry_id ?e = ''ana|silva|''"
    by (simp add: entry_of_def)
  from names_from_first_record [of "[ana_100, ana_50]"]
  have "\<forall>e\<in>set (Object_values [(''ana|silva|'', ?e)]).
          \<exists>sale. find (\<lambda>s. identifier s = entry_id e) [ana_100, ana_50] = Some sale
            \<and> firstName e = firstName sale \<and> lastName e = lastName sale
            \<and> instagram e = instagram sale"
    unfolding c by (simp only: sum.inject ex_simps simp_thms)
  from bspec [OF this m] obtain sale
    where "find (\<lambda>s. identifier s = entry_id ?e) [ana_100, ana_50] = Some sale"
      and n: "firstName ?e = firstName sale" "lastName ?e = lastName sale"
        "instagram ?e = instagram sale"
    by blast
  with f k have "sale = ana_100" by simp
  with n c f m show ?thesis by simp
qed

subsection \<open>C5: grouping without regard to case\<close>



subsection \<open>C6: the order of the ranking\<close>

text \<open>
  C6: for every input list the ranking is sorted by \<open>totalValor\<close>, largest first: at
  every two adjacent positions \<open>i\<close> and \<open>i + 1\<close> the total at \<open>i\<close> is greater than
  or equal to the total at \<open>i + 1\<close>, by the comparison \<open>>=\<close> of numbers.
\<close>

theorem ordering:
  "\<exists>out. rankedClients clients = Inr out
     \<and> (\<forall>i. i + 1 < length out \<longrightarrow> dge (totalValor (out ! i)) (totalValor (out ! (i + 1))))"
proof -
  define out where
    "out = take 10 (sort_cmp by_total_desc (Object_values (foldl aggregate [] clients)))"
  have "\<forall>e\<in>set (Object_values (foldl aggregate [] clients)). totalValor e \<noteq> DNaN"
    by (simp add: totals_not_NaN)
  then have "sorted_wrt (\<lambda>a b. dge (totalValor a) (totalValor b))
      (sort_cmp by_total_desc (Object_values (foldl aggregate [] clients)))"
    by (rule sorted_sort_cmp)
  then have s: "sorted_wrt (\<lambda>a b. dge (totalValor a) (totalValor b)) out"
    unfolding out_def by (rule sorted_wrt_take)
  have "dge (totalValor (out ! i)) (totalValor (out ! (i + 1)))" if "i + 1 < length out" for i
    using s that by (simp add: sorted_wrt_iff_nth_less)
  then show ?thesis
    by (simp add: rankedClients_aggregate out_def)
qed

theorem ordering_witness:
  "rankedClients [bruno_30, ana_100, ana_50]
     = Inr [entry_of ''Ana'' ''Silva'' TUndefined (Fin (whole 150)) ''ana|silva|'',
            entry_of ''Bruno'' ''Costa'' (TStr ''@b'') (Fin (whole 30)) ''bruno|costa|@b'']
   \<and> (0 :: nat) + 1
       < length [entry_of ''Ana'' ''Silva'' TUndefined (Fin (whole 150)) ''ana|silva|'',
            entry_of ''Bruno'' ''Costa'' (TStr ''@b'') (Fin (whole 30)) ''bruno|costa|@b'']
   \<and> dge (totalValor (entry_of ''Ana'' ''Silva'' TUndefined (Fin (whole 150)) ''ana|silva|''))
           (totalValor
             (entry_of ''Bruno'' ''Costa'' (TStr ''@b'') (Fin (whole 30)) ''bruno|costa|@b''))"
proof -
  let ?out = "[entry_of ''Ana'' ''Silva'' TUndefined (Fin (whole 150)) ''ana|silva|'',
            entry_of ''Bruno'' ''Costa'' (TStr ''@b'') (Fin (whole 30)) ''bruno|costa|@b'']"
  have r: "rankedClients [bruno_30, ana_100, ana_50] = Inr ?out"
    by (simp add: ranking_eval)
  from ordering [of "[bruno_30, ana_100, ana_50]"]
  have "\<forall>i. i + 1 < length ?out \<longrightarrow> dge (totalValor (?out ! i)) (totalValor (?out ! (i + 1)))"
    unfolding r by simp
  then have "dge (totalValor (?out ! 0)) (totalValor (?out ! (0 + 1)))"
    by (elim allE [of _ 0]) simp
  with r show ?thesis by simp
qed

subsection \<open>C7: the length of the ranking\<close>

text \<open>
  C7 as it is worded counts client identities, which the specification defines as
  the tuples of its section 3. It fails on the two records whose names hold the
  separator: they have two identities, and the ranking has one entry, not two.
\<close>

theorem identity_count_counterexample:
  "card (spec_ClientIdentity ` set [pipe_first, pipe_last]) = 2
   \<and> rankedClients [pipe_first, pipe_last]
       = Inr [entry_of ''a|b'' ''c'' TUndefined (Fin (whole 3)) ''a|b|c|'']
   \<and> length [entry_of ''a|b'' ''c'' TUndefined (Fin (whole 3)) ''a|b|c|''] = 1"
  by (simp add: spec_ClientIdentity_def card_insert_if ranking_eval)

text \<open>
  C7, amended: for every input list the length of the ranking is the minimum of ten
  and the number of distinct identifiers (the joined strings in lower case) among the
  records.
\<close>

theorem bounding:
  "\<exists>out. rankedClients clients = Inr out
     \<and> length out = min (card (identifier ` set clients)) 10"
proof -
  have "length (Object_values (foldl aggregate [] clients))
          = length (map fst (foldl aggregate [] clients))"
    by (simp add: Object_values_def)
  also have "\<dots> = card (set (map fst (foldl aggregate [] clients)))"
    by (simp only: distinct_card [OF distinct_clientTotals])
  also have "\<dots> = card (identifier ` set clients)"
    by (simp add: dom_foldl_aggregate)
  finally show ?thesis
    by (simp add: rankedClients_aggregate length_sort_cmp)
qed

subsection \<open>C8: the totals the panel shows\<close>

text \<open>
  C8: for every list of entries given to the panel, the ranking among them, the item
  at index \<open>i\<close> has the position \<open>i + 1\<close>; an item at a position from 1 to 3 shows
  the \<open>totalValor\<close> of its entry, and an item at a position greater than 3 shows the
  text \<open>Valor Privado\<close> and no number.
\<close>

theorem redaction_boundary:
  assumes "i < length clients"
  shows "\<exists>items. RankingPanel clients = RankingList items
     \<and> length items = length clients
     \<and> position (items ! i) = i + 1
     \<and> cell (items ! i)
         = (if position (items ! i) \<le> 3 then Valor (totalValor (clients ! i)) else ValorPrivado)"
proof -
  from assms have "clients \<noteq> []" by auto
  then have "RankingPanel clients = RankingList (map render_item (enumerate 0 clients))"
    by (simp add: RankingPanel_def)
  moreover from assms
  have "map render_item (enumerate 0 clients) ! i = render_item (i, clients ! i)"
    by (rule nth_enumerate_map)
  ultimately show ?thesis
    by (auto simp: render_item_def)
qed

theorem redaction_boundary_witness:
  "rankedClients [davi_10, carla_20, bruno_30, ana_100]
     = Inr [entry_of ''Ana'' ''Silva'' TUndefined (Fin (whole 100)) ''ana|silva|'',
            entry_of ''Bruno'' ''Costa'' (TStr ''@b'') (Fin (whole 30)) ''bruno|costa|@b'',
            entry_of ''Carla'' ''Dias'' (TStr []) (Fin (whole 20)) ''carla|dias|'',
            entry_of ''Davi'' ''Lima'' TNull (Fin (whole 10)) ''davi|lima|'']
   \<and> (3 :: nat) < length [entry_of ''Ana'' ''Silva'' TUndefined (Fin (whole 100)) ''ana|silva|'',
            entry_of ''Bruno'' ''Costa'' (TStr ''@b'') (Fin (whole 30)) ''bruno|costa|@b'',
            entry_of ''Carla'' ''Dias'' (TStr []) (Fin (whole 20)) ''carla|dias|'',
            entry_of ''Davi'' ''Lima'' TNull (Fin (whole 10)) ''davi|lima|'']
   \<and> (\<exists>items. RankingPanel [entry_of ''Ana'' ''Silva'' TUndefined (Fin (whole 100)) ''ana|silva|'',
            entry_of ''Bruno'' ''Costa'' (TStr ''@b'') (Fin (whole 30)) ''bruno|costa|@b'',
            entry_of ''Carla'' ''Dias'' (TStr []) (Fin (whole 20)) ''carla|dias|'',
            entry_of ''Davi'' ''Lima'' TNull (Fin (whole 10)) ''davi|lima|''] = RankingList items
         \<and> length items = 4
         \<and> map cell items = [Valor (Fin (whole 100)), Valor (Fin (whole 30)), Valor (Fin (whole 20)), ValorPrivado]
         \<and> position (items ! 3) = 4 \<and> cell (items ! 3) = ValorPrivado)"
proof -
  let ?out = "[entry_of ''Ana'' ''Silva'' TUndefined (Fin (whole 100)) ''ana|silva|'',
            entry_of ''Bruno'' ''Costa'' (TStr ''@b'') (Fin (whole 30)) ''bruno|costa|@b'',
            entry_of ''Carla'' ''Dias'' (TStr []) (Fin (whole 20)) ''carla|dias|'',
            entry_of ''Davi'' ''Lima'' TNull (Fin (whole 10)) ''davi|lima|'']"
  have r: "rankedClients [davi_10, carla_20, bruno_30, ana_100] = Inr ?out"
    by (simp add: ranking_eval)
  have l: "(3 :: nat) < length ?out" by simp
  have p: "map cell (map render_item (enumerate 0 ?out))
             = [Valor (Fin (whole 100)), Valor (Fin (whole 30)), Valor (Fin (whole 20)), ValorPrivado]"
    by (simp add: render_item_def entry_of_def)
  from redaction_boundary [OF l] obtain items
    where i: "RankingPanel ?out = RankingList items" "length items = length ?out"
      "position (items ! 3) = 3 + 1"
      "cell (items ! 3) = (if position (items ! 3) \<le> 3 then Valor (totalValor (?out ! 3))
         else ValorPrivado)"
    by blast
  from i(1) have "items = map render_item (enumerate 0 ?out)"
    by (simp add: RankingPanel_def)
  with p have "map cell items = [Valor (Fin (whole 100)), Valor (Fin (whole 30)), Valor (Fin (whole 20)), ValorPrivado]" by simp
  with r l i show ?thesis by simp
qed

subsection \<open>C9: the ranking always returns\<close>

text \<open>
  C9: for every finite input list the ranking returns a list and throws nothing; on
  the empty list it returns the empty ranking, for which the panel shows its paragraph
  for an empty ranking.
\<close>

theorem empty_and_total:
  "(\<exists>out. rankedClients clients = Inr out)
     \<and> rankedClients ([] :: 'a sale_scheme list) = Inr []
     \<and> RankingPanel [] = RankingEmpty"
  by (simp add: rankedClients_aggregate Object_values_def RankingPanel_def sort_cmp_def)

subsection \<open>C10: negative amounts\<close>




end
